theory Spec2Isabelle
  imports Main
begin

section \<open>The trace-capture controller of pyppeteer (\<open>pyppeteer/tracing.py\<close>)\<close>

text \<open>
  The class \<open>Tracing\<close> drives a CDP session: \<open>start\<close> sends \<open>Tracing.start\<close> with a
  category filter, \<open>stop\<close> arms a one-shot listener for \<open>Tracing.tracingComplete\<close>, sends
  \<open>Tracing.end\<close> and waits for the listener to drain the stream the signal names, and
  \<open>_readStream\<close> drains that stream with \<open>IO.read\<close> until \<open>eof\<close> and releases it with
  \<open>IO.close\<close>.

  The session (\<open>self._client\<close>) is not part of the file. It is modelled by what the
  code does to it and what it answers: every operation issued to the session is appended
  to a log, every \<open>await send(...)\<close> takes the next scripted reply, and a send for which
  no reply is left never resolves. A Python string is a \<open>string\<close>, one \<open>char\<close> for each
  character.
\<close>

subsection \<open>Values\<close>

text \<open>Exceptions. \<open>TypeError\<close> is what \<open>list(x)\<close> raises for a value that is not
  iterable; the session raises a \<open>TransportError\<close>; opening the trace file raises an
  \<open>OSError\<close>.\<close>

datatype error = TypeError | TransportError string | OSError string

text \<open>What an awaited coroutine does: it returns, it raises, or it stays suspended
  forever.\<close>

datatype 'a outcome = Returned 'a | Raised error | Suspended

text \<open>The value of a command parameter: a string, or Python's \<open>None\<close>.\<close>

datatype pval = PStr string | PNone

type_synonym params = "(string \<times> pval) list"

text \<open>An operation issued to the session: \<open>once(event, callback)\<close> or
  \<open>send(method, params)\<close>. A send without parameters has the empty parameter list.\<close>

datatype call = Once string | Send string params

text \<open>The answer to an \<open>IO.read\<close>: a dictionary in which \<open>data\<close> and \<open>eof\<close> may each be
  missing. The answers to the other commands are not inspected by the code, so they are
  responses as well, with their fields ignored.\<close>

record response =
  data :: "string option"
  eof :: "bool option"

type_synonym reply = "error + response"

text \<open>The payload of the \<open>Tracing.tracingComplete\<close> signal: the field \<open>stream\<close> may be
  missing.\<close>

record event =
  stream :: "string option"

text \<open>
  The \<open>categories\<close> argument of \<open>start\<close>. A list is an object the caller holds a
  reference to, so it is an address into the store of list objects. The annotation is
  \<open>Sequence[str]\<close>: the elements are strings.
\<close>

datatype categories_arg =
    CNone
  | CListRef nat
  | CStr string
  | CTuple "string list"
  | CNotIterable

text \<open>The list \<open>start\<close> works on after line 62: the caller's own list object, or a
  list created inside \<open>start\<close> that nothing else refers to.\<close>

datatype listobj = Ref nat | Local "string list"

subsection \<open>State\<close>

text \<open>
  \<open>recording\<close> and \<open>path\<close> are the fields \<open>_recording\<close> and \<open>_path\<close> of the \<open>Tracing\<close>
  object. \<open>calls\<close> is the log of the operations issued to the session, oldest first.
  \<open>replies\<close> are the answers the session gives to the sends to come, in order, and
  \<open>signals\<close> the \<open>Tracing.tracingComplete\<close> signals it will deliver. \<open>objs\<close> is the store
  of the caller's list objects, \<open>files\<close> the file system, and \<open>writable\<close> tells whether a
  path can be opened for writing.
\<close>

record state =
  recording :: bool
  path :: string
  calls :: "call list"
  replies :: "reply list"
  signals :: "event list"
  objs :: "nat \<Rightarrow> string list"
  files :: "string \<rightharpoonup> string"
  writable :: "string \<Rightarrow> bool"

text \<open>\<open>Tracing.__init__\<close>: not recording, empty path. The session is given by its
  script; nothing has been issued to it, every list object is empty, no file exists and
  every path can be written.\<close>

definition init :: "reply list \<Rightarrow> event list \<Rightarrow> state" where
  "init rs evs =
     \<lparr>recording = False, path = [], calls = [], replies = rs, signals = evs,
      objs = (\<lambda>_. []), files = Map.empty, writable = (\<lambda>_. True)\<rparr>"

subsection \<open>The session\<close>

text \<open>\<open>self._client.once(event, callback)\<close>: the registration is logged.\<close>

definition once :: "state \<Rightarrow> string \<Rightarrow> state" where
  "once st ev = st\<lparr>calls := calls st @ [Once ev]\<rparr>"

text \<open>\<open>await self._client.send(method, params)\<close>: the command is logged and the next
  scripted reply is its answer; \<open>None\<close> when the session never answers.\<close>

definition send :: "state \<Rightarrow> string \<Rightarrow> params \<Rightarrow> reply option \<times> state" where
  "send st m ps =
     (case replies st of
        [] \<Rightarrow> (None, st\<lparr>calls := calls st @ [Send m ps]\<rparr>)
      | r # rs \<Rightarrow> (Some r, st\<lparr>calls := calls st @ [Send m ps], replies := rs\<rparr>))"

subsection \<open>\<open>start\<close>\<close>

definition defaultCategories :: "string list" where
  "defaultCategories =
     [''-*'',
      ''devtools.timeline'',
      ''v8.execute'',
      ''disabled-by-default-devtools.timeline'',
      ''disabled-by-default-devtools.timeline.frame'',
      ''toplevel'',
      ''blink.console'',
      ''blink.user_timing'',
      ''latencyInfo'',
      ''disabled-by-default-devtools.timeline.stack'',
      ''disabled-by-default-v8.cpu_profiler'',
      ''disabled-by-default-v8.cpu_profiler.hires'']"

definition screenshot_token :: string where
  "screenshot_token = ''disabled-by-default-devtools.screenshot''"

text \<open>\<open>sep.join(xs)\<close>.\<close>

fun join :: "string \<Rightarrow> string list \<Rightarrow> string" where
  "join sep [] = []"
| "join sep [x] = x"
| "join sep (x # y # ys) = x @ sep @ join sep (y # ys)"

text \<open>\<open>list(categories)\<close>: a new list with the elements of a list, the characters
  of a string or the elements of another iterable; \<open>TypeError\<close> for \<open>None\<close> and for any
  other value that is not iterable.\<close>

fun to_list :: "state \<Rightarrow> categories_arg \<Rightarrow> error + string list" where
  "to_list st CNone = Inl TypeError"
| "to_list st (CListRef a) = Inr (objs st a)"
| "to_list st (CStr s) = Inr (map (\<lambda>c. [c]) s)"
| "to_list st (CTuple xs) = Inr xs"
| "to_list st CNotIterable = Inl TypeError"

text \<open>Lines 58 to 62: a list stays the object it is; any other value goes through
  \<open>list(...)\<close>, and the default list replaces it when that raises \<open>TypeError\<close> (no
  other exception is caught).\<close>

fun resolve :: "state \<Rightarrow> categories_arg \<Rightarrow> error + listobj" where
  "resolve st (CListRef a) = Inr (Ref a)"
| "resolve st categories =
     (case to_list st categories of
        Inr xs \<Rightarrow> Inr (Local xs)
      | Inl TypeError \<Rightarrow> Inr (Local defaultCategories)
      | Inl e \<Rightarrow> Inl e)"

text \<open>The elements of a list object.\<close>

fun contents :: "state \<Rightarrow> listobj \<Rightarrow> string list" where
  "contents st (Ref a) = objs st a"
| "contents st (Local xs) = xs"

text \<open>\<open>l.append(x)\<close>: in place, so a list of the caller's changes in the store.\<close>

fun append_obj :: "state \<Rightarrow> listobj \<Rightarrow> string \<Rightarrow> state \<times> listobj" where
  "append_obj st (Ref a) x = (st\<lparr>objs := (objs st)(a := objs st a @ [x])\<rparr>, Ref a)"
| "append_obj st (Local xs) x = (st, Local (xs @ [x]))"

definition start :: "state \<Rightarrow> string \<Rightarrow> bool \<Rightarrow> categories_arg \<Rightarrow> unit outcome \<times> state" where
  "start st p screenshots categories =
     (case resolve st categories of
        Inl e \<Rightarrow> (Raised e, st)
      | Inr l \<Rightarrow>
          (let (st1, l1) = (if screenshots then append_obj st l screenshot_token else (st, l));
               st2 = st1\<lparr>path := p\<rparr>;
               st3 = st2\<lparr>recording := True\<rparr>
           in case send st3 ''Tracing.start''
                     [(''transferMode'', PStr ''ReturnAsStream''),
                      (''categories'', PStr (join '','' (contents st3 l1)))] of
                (None, st4) \<Rightarrow> (Suspended, st4)
              | (Some (Inl e), st4) \<Rightarrow> (Raised e, st4)
              | (Some (Inr r), st4) \<Rightarrow> (Returned (), st4)))"

subsection \<open>\<open>_readStream\<close>\<close>

text \<open>The handle as a command parameter: \<open>event.get('stream')\<close> is \<open>None\<close> when the
  field is missing.\<close>

fun handle_param :: "string option \<Rightarrow> params" where
  "handle_param None = [(''handle'', PNone)]"
| "handle_param (Some h) = [(''handle'', PStr h)]"

text \<open>\<open>response.get('eof', False)\<close> and \<open>response.get('data', '')\<close>.\<close>

fun get_eof :: "response \<Rightarrow> bool" where
  "get_eof r = (case eof r of None \<Rightarrow> False | Some b \<Rightarrow> b)"

fun get_data :: "response \<Rightarrow> string" where
  "get_data r = (case data r of None \<Rightarrow> [] | Some d \<Rightarrow> d)"

text \<open>
  The loop of lines 93 to 96, from the loop variables \<open>eof\<close> and \<open>bufs\<close>. A read that
  raises ends the loop with the exception; a read that is never answered leaves it
  suspended. Every read that is answered takes one scripted reply, which is why the
  recursion ends.
\<close>

function read_loop :: "state \<Rightarrow> string option \<Rightarrow> bool \<Rightarrow> string list \<Rightarrow> string list outcome \<times> state" where
  "read_loop st handle eof_flag bufs =
     (if \<not> eof_flag then
        (case send st ''IO.read'' (handle_param handle) of
           (None, st1) \<Rightarrow> (Suspended, st1)
         | (Some (Inl e), st1) \<Rightarrow> (Raised e, st1)
         | (Some (Inr r), st1) \<Rightarrow> read_loop st1 handle (get_eof r) (bufs @ [get_data r]))
      else (Returned bufs, st))"
  by pat_completeness auto
termination
  by (relation "measure (\<lambda>(st, h, e, b). length (replies st))")
     (auto simp: send_def split: list.splits)

text \<open>Lines 100 to 103: the file is opened for writing, which may fail, and then holds
  the result and nothing else.\<close>

definition write_file :: "state \<Rightarrow> string \<Rightarrow> string \<Rightarrow> error + state" where
  "write_file st p content =
     (if writable st p then Inr (st\<lparr>files := (files st)(p \<mapsto> content)\<rparr>)
      else Inl (OSError p))"

definition readStream :: "state \<Rightarrow> string option \<Rightarrow> string \<Rightarrow> string outcome \<times> state" where
  "readStream st handle p =
     (case read_loop st handle False [] of
        (Suspended, st1) \<Rightarrow> (Suspended, st1)
      | (Raised e, st1) \<Rightarrow> (Raised e, st1)
      | (Returned bufs, st1) \<Rightarrow>
          (case send st1 ''IO.close'' (handle_param handle) of
             (None, st2) \<Rightarrow> (Suspended, st2)
           | (Some (Inl e), st2) \<Rightarrow> (Raised e, st2)
           | (Some (Inr r), st2) \<Rightarrow>
               (let result = concat bufs
                in if p \<noteq> [] then
                     (case write_file st2 p result of
                        Inl e \<Rightarrow> (Raised e, st2)
                      | Inr st3 \<Rightarrow> (Returned result, st3))
                   else (Returned result, st2))))"

subsection \<open>\<open>stop\<close>\<close>

text \<open>
  \<open>stop\<close> registers the listener, sends \<open>Tracing.end\<close>, clears \<open>_recording\<close> and awaits
  \<open>contentFuture\<close>. The listener runs \<open>_readStream\<close> on \<open>event.get('stream')\<close> and
  \<open>self._path\<close> as a task, and the task's done-callback resolves \<open>contentFuture\<close> with
  \<open>fut.result()\<close>. When the task has raised, \<open>fut.result()\<close> raises inside the callback,
  \<open>contentFuture\<close> is never resolved and \<open>stop\<close> stays suspended; so it does when no
  signal is delivered. The signal is taken to be delivered after the reply to
  \<open>Tracing.end\<close>: the session emits it in answer to that command. When the send raises or
  is never answered, \<open>stop\<close> ends there and the listener stays registered.

  The model follows the listener that this \<open>stop\<close> registers, and no other. A listener
  that an earlier \<open>stop\<close> has left registered is fired by the same signal and drains
  the same handle alongside; its reads and its close are not in the log of the model.
  The properties below that hold of every state are stated so that they hold with such
  a second drain as well: it issues nothing but \<open>IO.read\<close> and \<open>IO.close\<close>.
\<close>

definition stop :: "state \<Rightarrow> string outcome \<times> state" where
  "stop st =
     (let st1 = once st ''Tracing.tracingComplete''
      in case send st1 ''Tracing.end'' [] of
           (None, st2) \<Rightarrow> (Suspended, st2)
         | (Some (Inl e), st2) \<Rightarrow> (Raised e, st2)
         | (Some (Inr r), st2) \<Rightarrow>
             (let st3 = st2\<lparr>recording := False\<rparr>
              in case signals st3 of
                   [] \<Rightarrow> (Suspended, st3)
                 | ev # evs \<Rightarrow>
                     (case readStream (st3\<lparr>signals := evs\<rparr>) (stream ev) (path st3) of
                        (Returned v, st4) \<Rightarrow> (Returned v, st4)
                      | (Raised e, st4) \<Rightarrow> (Suspended, st4)
                      | (Suspended, st4) \<Rightarrow> (Suspended, st4))))"

text \<open>The operations issued to the session since the state \<open>st\<close>.\<close>

definition issued :: "state \<Rightarrow> state \<Rightarrow> call list" where
  "issued st st' = drop (length (calls st)) (calls st')"


section \<open>Properties of \<open>start\<close>\<close>

lemma send_calls: "calls (snd (send st m ps)) = calls st @ [Send m ps]"
  by (simp add: send_def split: list.splits)

lemma send_recording: "recording (snd (send st m ps)) = recording st"
  by (simp add: send_def split: list.splits)

lemma send_objs: "objs (snd (send st m ps)) = objs st"
  by (simp add: send_def split: list.splits)

lemma snd_case_reply:
  "snd (case x of (None, s) \<Rightarrow> (a, s) | (Some (Inl e), s) \<Rightarrow> (b e, s)
               | (Some (Inr r), s) \<Rightarrow> (c r, s)) = snd x"
  by (simp split: prod.splits option.splits sum.splits)

text \<open>\<open>list(...)\<close> raises nothing but \<open>TypeError\<close>, so lines 58 to 62 always yield a
  list.\<close>

lemma resolve_total: "\<exists>l. resolve st c = Inr l"
  by (cases c) simp_all

text \<open>The state \<open>start\<close> leaves is the one its send leaves.\<close>

lemma start_state:
  assumes "resolve st c = Inr l"
  shows "snd (start st p sc c) =
     snd (send ((fst (if sc then append_obj st l screenshot_token else (st, l)))
                  \<lparr>path := p, recording := True\<rparr>)
        ''Tracing.start''
        [(''transferMode'', PStr ''ReturnAsStream''),
         (''categories'',
          PStr (join '','' (contents st l @ (if sc then [screenshot_token] else []))))])"
  using assms by (cases l) (simp_all add: start_def Let_def snd_case_reply)

lemma start_calls:
  assumes "resolve st c = Inr l"
  shows "calls (snd (start st p sc c)) = calls st @
     [Send ''Tracing.start''
        [(''transferMode'', PStr ''ReturnAsStream''),
         (''categories'',
          PStr (join '','' (contents st l @ (if sc then [screenshot_token] else []))))]]"
  using assms by (cases l) (simp_all add: start_state send_calls)

lemma start_objs:
  assumes "resolve st c = Inr l"
  shows "objs (snd (start st p sc c)) =
         objs (fst (if sc then append_obj st l screenshot_token else (st, l)))"
  using assms by (cases l) (simp_all add: start_state send_objs)

lemma start_recording: "recording (snd (start st p sc c)) = True"
proof -
  obtain l where l: "resolve st c = Inr l" using resolve_total by blast
  show ?thesis by (cases l) (simp_all add: start_state [OF l] send_recording)
qed

lemma start_appends_in_place:
  "objs (snd (start st p True (CListRef a))) a = objs st a @ [screenshot_token]"
  by (simp add: start_objs [where l = "Ref a"])

text \<open>The characters of a string, joined by commas, never spell the default filter: a
  comma follows the first character, where the default has \<open>*\<close>.\<close>

lemma join_chars_ne_default:
  "join '','' (map (\<lambda>c. [c]) s @ (if sc then [screenshot_token] else [])) \<noteq>
   join '','' (defaultCategories @ (if sc then [screenshot_token] else []))"
proof (cases s)
  case Nil
  then show ?thesis by (simp add: defaultCategories_def screenshot_token_def)
next
  case (Cons x t)
  then show ?thesis
    by (cases t) (simp_all add: defaultCategories_def screenshot_token_def)
qed

text \<open>What \<open>join\<close> computes, said without it: every element but the last followed
  by the separator, then the last element.\<close>

lemma join_closed_form:
  "join sep xs = (if xs = [] then [] else concat (map (\<lambda>x. x @ sep) (butlast xs)) @ last xs)"
  by (induction sep xs rule: join.induct) simp_all

text \<open>The default filter as it goes over the wire, without and with the screenshot
  token.\<close>

lemma join_default:
  "join '','' defaultCategories =
     ''-*,devtools.timeline,v8.execute,disabled-by-default-devtools.timeline,disabled-by-default-devtools.timeline.frame,toplevel,blink.console,blink.user_timing,latencyInfo,disabled-by-default-devtools.timeline.stack,disabled-by-default-v8.cpu_profiler,disabled-by-default-v8.cpu_profiler.hires''"
  by (simp add: defaultCategories_def)

lemma join_default_screenshot:
  "join '','' (defaultCategories @ [screenshot_token]) =
     ''-*,devtools.timeline,v8.execute,disabled-by-default-devtools.timeline,disabled-by-default-devtools.timeline.frame,toplevel,blink.console,blink.user_timing,latencyInfo,disabled-by-default-devtools.timeline.stack,disabled-by-default-v8.cpu_profiler,disabled-by-default-v8.cpu_profiler.hires,disabled-by-default-devtools.screenshot''"
  by (simp add: defaultCategories_def screenshot_token_def)

text \<open>
  C4. For every list-like sequence \<open>C\<close> of categories, a tuple or a list object holding
  \<open>C\<close>, \<open>start\<close> issues exactly one command, \<open>Tracing.start\<close>, with
  \<open>transferMode = ReturnAsStream\<close> and \<open>categories\<close> the elements of \<open>C\<close> joined by
  commas, the screenshot token appended to them if and only if \<open>screenshots\<close> is true.
  The string that is sent for a list \<open>xs\<close> is empty when \<open>xs\<close> is, and otherwise every
  element but the last followed by a comma, then the last element. For the categories
  \<open>cat1\<close> and \<open>cat2\<close>, as a tuple or as a list object, it is \<open>cat1,cat2\<close>, and
  \<open>cat1,cat2,disabled-by-default-devtools.screenshot\<close> with screenshots.
\<close>

theorem start_serializes_list_like:
  "calls (snd (start st p sc (CTuple C))) = calls st @
     [Send ''Tracing.start''
        [(''transferMode'', PStr ''ReturnAsStream''),
         (''categories'',
          PStr (join '',''
            (C @ (if sc then [''disabled-by-default-devtools.screenshot''] else []))))]]
   \<and> calls (snd (start st p sc (CListRef a))) = calls st @
     [Send ''Tracing.start''
        [(''transferMode'', PStr ''ReturnAsStream''),
         (''categories'',
          PStr (join '',''
            (objs st a @ (if sc then [''disabled-by-default-devtools.screenshot''] else []))))]]
   \<and> join '','' xs =
       (if xs = [] then [] else concat (map (\<lambda>x. x @ '','') (butlast xs)) @ last xs)
   \<and> calls (snd (start st p True (CTuple [''cat1'', ''cat2'']))) = calls st @
     [Send ''Tracing.start''
        [(''transferMode'', PStr ''ReturnAsStream''),
         (''categories'', PStr ''cat1,cat2,disabled-by-default-devtools.screenshot'')]]
   \<and> calls (snd (start st p False (CTuple [''cat1'', ''cat2'']))) = calls st @
     [Send ''Tracing.start''
        [(''transferMode'', PStr ''ReturnAsStream''),
         (''categories'', PStr ''cat1,cat2'')]]
   \<and> calls (snd (start (st\<lparr>objs := (objs st)(a := [''cat1'', ''cat2''])\<rparr>) p True (CListRef a))) =
     calls st @
     [Send ''Tracing.start''
        [(''transferMode'', PStr ''ReturnAsStream''),
         (''categories'', PStr ''cat1,cat2,disabled-by-default-devtools.screenshot'')]]
   \<and> calls (snd (start (st\<lparr>objs := (objs st)(a := [''cat1'', ''cat2''])\<rparr>) p False (CListRef a))) =
     calls st @
     [Send ''Tracing.start''
        [(''transferMode'', PStr ''ReturnAsStream''),
         (''categories'', PStr ''cat1,cat2'')]]"
proof -
  have tup: "\<And>b. calls (snd (start st p b (CTuple [''cat1'', ''cat2'']))) = calls st @
     [Send ''Tracing.start''
        [(''transferMode'', PStr ''ReturnAsStream''),
         (''categories'',
          PStr (join '','' ([''cat1'', ''cat2''] @ (if b then [screenshot_token] else []))))]]"
    by (simp add: start_calls [where l = "Local [''cat1'', ''cat2'']"])
  have lst: "\<And>b. calls (snd (start (st\<lparr>objs := (objs st)(a := [''cat1'', ''cat2''])\<rparr>) p b (CListRef a))) =
     calls st @
     [Send ''Tracing.start''
        [(''transferMode'', PStr ''ReturnAsStream''),
         (''categories'',
          PStr (join '','' ([''cat1'', ''cat2''] @ (if b then [screenshot_token] else []))))]]"
    by (simp add: start_calls [where l = "Ref a"])
  show ?thesis
    by (simp add: start_calls [where l = "Local C"] start_calls [where l = "Ref a"]
          tup lst screenshot_token_def join_closed_form [of "'',''" xs])
qed

text \<open>
  C5. When \<open>categories\<close> is omitted (\<open>None\<close>) or cannot be converted to a list, the
  filter sent is the twelve default tokens in their order, joined by commas, with the
  screenshot token after them when \<open>screenshots\<close> is true: the string written out in
  the last part of the statement.
\<close>

theorem start_default_filter:
  "calls (snd (start st p sc CNone)) = calls st @
     [Send ''Tracing.start''
        [(''transferMode'', PStr ''ReturnAsStream''),
         (''categories'',
          PStr (join '',''
            ([''-*'', ''devtools.timeline'', ''v8.execute'',
              ''disabled-by-default-devtools.timeline'',
              ''disabled-by-default-devtools.timeline.frame'', ''toplevel'',
              ''blink.console'', ''blink.user_timing'', ''latencyInfo'',
              ''disabled-by-default-devtools.timeline.stack'',
              ''disabled-by-default-v8.cpu_profiler'',
              ''disabled-by-default-v8.cpu_profiler.hires'']
             @ (if sc then [''disabled-by-default-devtools.screenshot''] else []))))]]
   \<and> calls (snd (start st p sc CNotIterable)) = calls (snd (start st p sc CNone))
   \<and> length defaultCategories = 12
   \<and> calls (snd (start st p sc CNone)) = calls st @
     [Send ''Tracing.start''
        [(''transferMode'', PStr ''ReturnAsStream''),
         (''categories'',
          PStr (''-*,devtools.timeline,v8.execute,disabled-by-default-devtools.timeline,disabled-by-default-devtools.timeline.frame,toplevel,blink.console,blink.user_timing,latencyInfo,disabled-by-default-devtools.timeline.stack,disabled-by-default-v8.cpu_profiler,disabled-by-default-v8.cpu_profiler.hires''
             @ (if sc then '',disabled-by-default-devtools.screenshot'' else [])))]]"
proof -
  have lit: "calls (snd (start st p sc CNone)) = calls st @
     [Send ''Tracing.start''
        [(''transferMode'', PStr ''ReturnAsStream''),
         (''categories'',
          PStr (''-*,devtools.timeline,v8.execute,disabled-by-default-devtools.timeline,disabled-by-default-devtools.timeline.frame,toplevel,blink.console,blink.user_timing,latencyInfo,disabled-by-default-devtools.timeline.stack,disabled-by-default-v8.cpu_profiler,disabled-by-default-v8.cpu_profiler.hires''
             @ (if sc then '',disabled-by-default-devtools.screenshot'' else [])))]]"
  proof (cases sc)
    case True
    then show ?thesis
      by (simp add: start_calls [where l = "Local defaultCategories"] join_default_screenshot)
  next
    case False
    then show ?thesis
      by (simp add: start_calls [where l = "Local defaultCategories"] join_default)
  qed
  have rest: "calls (snd (start st p sc CNone)) = calls st @
     [Send ''Tracing.start''
        [(''transferMode'', PStr ''ReturnAsStream''),
         (''categories'',
          PStr (join '',''
            ([''-*'', ''devtools.timeline'', ''v8.execute'',
              ''disabled-by-default-devtools.timeline'',
              ''disabled-by-default-devtools.timeline.frame'', ''toplevel'',
              ''blink.console'', ''blink.user_timing'', ''latencyInfo'',
              ''disabled-by-default-devtools.timeline.stack'',
              ''disabled-by-default-v8.cpu_profiler'',
              ''disabled-by-default-v8.cpu_profiler.hires'']
             @ (if sc then [''disabled-by-default-devtools.screenshot''] else []))))]]
   \<and> calls (snd (start st p sc CNotIterable)) = calls (snd (start st p sc CNone))
   \<and> length defaultCategories = 12"
    by (simp add: start_calls [where l = "Local defaultCategories"] screenshot_token_def
        defaultCategories_def)
  from rest lit show ?thesis by blast
qed

text \<open>
  C9. With an actual list and \<open>screenshots\<close> true, \<open>start\<close> appends the screenshot token
  to the caller's own list object: after the call the object holds one more element, and
  after \<open>n\<close> calls with the same list it holds \<open>n\<close> more.
\<close>

theorem start_mutates_callers_list:
  "objs (snd (start st p True (CListRef a))) a =
     objs st a @ [''disabled-by-default-devtools.screenshot'']
   \<and> objs (((\<lambda>s. snd (start s p True (CListRef a))) ^^ n) st) a =
     objs st a @ replicate n ''disabled-by-default-devtools.screenshot''"
proof -
  have "objs (((\<lambda>s. snd (start s p True (CListRef a))) ^^ n) st) a =
        objs st a @ replicate n screenshot_token"
    by (induction n) (simp_all add: start_appends_in_place replicate_append_same)
  then show ?thesis
    by (simp add: start_appends_in_place screenshot_token_def [symmetric])
qed

text \<open>
  C10. A string is not a list, and \<open>list(s)\<close> succeeds on it: for every string \<open>s\<close>,
  \<open>start\<close> sends the characters of \<open>s\<close> joined by commas (with the screenshot token
  after them when asked for), which is never what the default filter gives;
  \<open>categories="abc"\<close> is sent as \<open>a,b,c\<close>.
\<close>

theorem start_string_categories:
  "calls (snd (start st p sc (CStr s))) = calls st @
     [Send ''Tracing.start''
        [(''transferMode'', PStr ''ReturnAsStream''),
         (''categories'',
          PStr (join '',''
            (map (\<lambda>c. [c]) s @
             (if sc then [''disabled-by-default-devtools.screenshot''] else []))))]]
   \<and> calls (snd (start st p sc (CStr s))) \<noteq> calls (snd (start st p sc CNone))
   \<and> join '','' (map (\<lambda>c. [c]) ''abc'') = ''a,b,c''"
  using join_chars_ne_default [of s sc]
  by (simp add: start_calls [where l = "Local (map (\<lambda>c. [c]) s)"]
        start_calls [where l = "Local defaultCategories"] screenshot_token_def)


section \<open>Properties of \<open>_readStream\<close> and \<open>stop\<close>\<close>

subsection \<open>One turn of the loop\<close>

declare read_loop.simps [simp del]

lemma read_loop_eof: "read_loop st h True bufs = (Returned bufs, st)"
  by (simp add: read_loop.simps)

lemma read_loop_unanswered:
  "replies st = [] \<Longrightarrow>
   read_loop st h False bufs =
     (Suspended, st\<lparr>calls := calls st @ [Send ''IO.read'' (handle_param h)]\<rparr>)"
  by (simp add: read_loop.simps [of st h False] send_def)

lemma read_loop_raises:
  "replies st = Inl e # rs \<Longrightarrow>
   read_loop st h False bufs =
     (Raised e, st\<lparr>calls := calls st @ [Send ''IO.read'' (handle_param h)], replies := rs\<rparr>)"
  by (simp add: read_loop.simps [of st h False] send_def)

lemma read_loop_answered:
  "replies st = Inr r # rs \<Longrightarrow>
   read_loop st h False bufs =
     read_loop (st\<lparr>calls := calls st @ [Send ''IO.read'' (handle_param h)], replies := rs\<rparr>)
       h (get_eof r) (bufs @ [get_data r])"
  by (simp add: read_loop.simps [of st h False] send_def)

text \<open>Whatever the loop does, it only issues reads of the handle, and it changes nothing
  but the log and the replies left.\<close>

lemma read_loop_effect:
  "replies st = rs \<Longrightarrow>
   \<exists>k rs'. snd (read_loop st h e bufs) =
      st\<lparr>calls := calls st @ replicate k (Send ''IO.read'' (handle_param h)), replies := rs'\<rparr>"
proof (induction rs arbitrary: st e bufs)
  case Nil
  show ?case
  proof (cases e)
    case True
    show ?thesis
      by (rule exI [of _ 0], rule exI [of _ "[]"]) (simp add: True read_loop_eof Nil)
  next
    case False
    show ?thesis
      by (rule exI [of _ 1], rule exI [of _ "[]"]) (simp add: False read_loop_unanswered Nil)
  qed
next
  case (Cons a rs)
  show ?case
  proof (cases e)
    case True
    show ?thesis
      by (rule exI [of _ 0], rule exI [of _ "a # rs"]) (simp add: True read_loop_eof Cons.prems)
  next
    case False
    show ?thesis
    proof (cases a)
      case (Inl err)
      show ?thesis
        by (rule exI [of _ 1], rule exI [of _ rs])
           (simp add: False read_loop_raises [of st err rs] Cons.prems Inl)
    next
      case (Inr r)
      let ?st1 = "st\<lparr>calls := calls st @ [Send ''IO.read'' (handle_param h)], replies := rs\<rparr>"
      have "replies ?st1 = rs" by simp
      from Cons.IH [OF this, of "get_eof r" "bufs @ [get_data r]"]
      obtain k rs' where
        k: "snd (read_loop ?st1 h (get_eof r) (bufs @ [get_data r])) =
            ?st1\<lparr>calls := calls ?st1 @ replicate k (Send ''IO.read'' (handle_param h)), replies := rs'\<rparr>"
        by blast
      have "snd (read_loop st h e bufs) =
            st\<lparr>calls := calls st @ replicate (Suc k) (Send ''IO.read'' (handle_param h)), replies := rs'\<rparr>"
        using k by (simp add: False read_loop_answered [of st r rs] Cons.prems Inr)
      then show ?thesis by blast
    qed
  qed
qed


lemma read_loop_read_raises:
  "replies st = map Inr pre @ Inl err # rest \<Longrightarrow> \<forall>x\<in>set pre. \<not> get_eof x \<Longrightarrow>
   read_loop st h False bufs =
     (Raised err,
      st\<lparr>calls := calls st @ replicate (Suc (length pre)) (Send ''IO.read'' (handle_param h)),
         replies := rest\<rparr>)"
proof (induction pre arbitrary: st bufs)
  case Nil
  then show ?case
    by (simp add: read_loop_raises [of st err rest])
next
  case (Cons x pre)
  let ?st1 = "st\<lparr>calls := calls st @ [Send ''IO.read'' (handle_param h)],
                  replies := map Inr pre @ Inl err # rest\<rparr>"
  have x: "get_eof x = False" using Cons.prems(2) by simp
  have step: "read_loop st h False bufs = read_loop ?st1 h False (bufs @ [get_data x])"
    using Cons.prems(1) x by (simp add: read_loop_answered [of st x "map Inr pre @ Inl err # rest"])
  have "replies ?st1 = map Inr pre @ Inl err # rest" by simp
  from Cons.IH [OF this, of "bufs @ [get_data x]"] Cons.prems(2)
  show ?case unfolding step by (simp add: replicate_append_same)
qed

lemma read_loop_never_eof:
  "replies st = map Inr pre \<Longrightarrow> \<forall>x\<in>set pre. \<not> get_eof x \<Longrightarrow>
   read_loop st h False bufs =
     (Suspended,
      st\<lparr>calls := calls st @ replicate (Suc (length pre)) (Send ''IO.read'' (handle_param h)),
         replies := []\<rparr>)"
proof (induction pre arbitrary: st bufs)
  case Nil
  then show ?case
    by (simp add: read_loop_unanswered)
next
  case (Cons x pre)
  let ?st1 = "st\<lparr>calls := calls st @ [Send ''IO.read'' (handle_param h)],
                  replies := map Inr pre\<rparr>"
  have x: "get_eof x = False" using Cons.prems(2) by simp
  have step: "read_loop st h False bufs = read_loop ?st1 h False (bufs @ [get_data x])"
    using Cons.prems(1) x by (simp add: read_loop_answered [of st x "map Inr pre"])
  have "replies ?st1 = map Inr pre" by simp
  from Cons.IH [OF this, of "bufs @ [get_data x]"] Cons.prems(2)
  show ?case unfolding step by (simp add: replicate_append_same)
qed

lemma write_file_frame:
  "write_file st p content = Inr st' \<Longrightarrow> calls st' = calls st \<and> recording st' = recording st"
  by (auto simp: write_file_def split: if_splits)

text \<open>After the loop, \<open>_readStream\<close> issues the close when the loop has returned, and
  nothing otherwise.\<close>

lemma readStream_calls:
  "\<exists>k. calls (snd (readStream st h p)) =
        calls st @ replicate k (Send ''IO.read'' (handle_param h)) @
        (case fst (read_loop st h False []) of
           Returned bufs \<Rightarrow> [Send ''IO.close'' (handle_param h)]
         | Raised e \<Rightarrow> []
         | Suspended \<Rightarrow> [])"
proof -
  obtain out st1 where rl: "read_loop st h False [] = (out, st1)"
    by (cases "read_loop st h False []")
  from read_loop_effect [OF refl, of st h False "[]"] rl
  obtain k where k: "calls st1 = calls st @ replicate k (Send ''IO.read'' (handle_param h))"
    by auto
  have "calls (snd (readStream st h p)) =
        calls st @ replicate k (Send ''IO.read'' (handle_param h)) @
        (case out of
           Returned bufs \<Rightarrow> [Send ''IO.close'' (handle_param h)]
         | Raised e \<Rightarrow> []
         | Suspended \<Rightarrow> [])"
  proof (cases out)
    case (Returned bufs)
    obtain a st2 where s: "send st1 ''IO.close'' (handle_param h) = (a, st2)"
      by (cases "send st1 ''IO.close'' (handle_param h)")
    then have c: "calls st2 = calls st1 @ [Send ''IO.close'' (handle_param h)]"
      using send_calls [of st1 "''IO.close''" "handle_param h"] by simp
    show ?thesis
      using rl Returned s c k
      by (auto simp: readStream_def Let_def split: option.splits sum.splits dest: write_file_frame)
  next
    case (Raised e)
    then show ?thesis using rl k by (simp add: readStream_def)
  next
    case Suspended
    then show ?thesis using rl k by (simp add: readStream_def)
  qed
  then show ?thesis using rl by auto
qed

lemma readStream_recording: "recording (snd (readStream st h p)) = recording st"
proof -
  obtain out st1 where rl: "read_loop st h False [] = (out, st1)"
    by (cases "read_loop st h False []")
  from read_loop_effect [OF refl, of st h False "[]"] rl
  have r1: "recording st1 = recording st"
    by auto
  show ?thesis
  proof (cases out)
    case (Returned bufs)
    obtain a st2 where s: "send st1 ''IO.close'' (handle_param h) = (a, st2)"
      by (cases "send st1 ''IO.close'' (handle_param h)")
    then have c: "recording st2 = recording st1"
      using send_recording [of st1 "''IO.close''" "handle_param h"] by simp
    show ?thesis
      using rl Returned s c r1
      by (auto simp: readStream_def Let_def split: option.splits sum.splits dest: write_file_frame)
  next
    case (Raised e)
    then show ?thesis using rl r1 by (simp add: readStream_def)
  next
    case Suspended
    then show ?thesis using rl r1 by (simp add: readStream_def)
  qed
qed

lemma issued_append: "calls st' = calls st @ cs \<Longrightarrow> issued st st' = cs"
  by (simp add: issued_def)

lemma count_list_replicate_other: "x \<noteq> y \<Longrightarrow> count_list (replicate k x) y = 0"
  by (induction k) simp_all

lemma read_loop_first_read:
  "\<exists>cs. calls (snd (read_loop st h False bufs)) = calls st @ Send ''IO.read'' (handle_param h) # cs"
proof (cases "replies st")
  case Nil
  then show ?thesis by (simp add: read_loop_unanswered)
next
  case (Cons a rs)
  show ?thesis
  proof (cases a)
    case (Inl err)
    with Cons show ?thesis by (simp add: read_loop_raises [of st err rs])
  next
    case (Inr r)
    let ?st1 = "st\<lparr>calls := calls st @ [Send ''IO.read'' (handle_param h)], replies := rs\<rparr>"
    from read_loop_effect [OF refl, of ?st1 h "get_eof r" "bufs @ [get_data r]"]
    obtain k where "calls (snd (read_loop ?st1 h (get_eof r) (bufs @ [get_data r]))) =
        calls ?st1 @ replicate k (Send ''IO.read'' (handle_param h))"
      by auto
    with Cons Inr show ?thesis by (simp add: read_loop_answered [of st r rs])
  qed
qed

lemma readStream_after_loop:
  "\<exists>cs. calls (snd (readStream st h p)) = calls (snd (read_loop st h False [])) @ cs"
proof -
  obtain out st1 where rl: "read_loop st h False [] = (out, st1)"
    by (cases "read_loop st h False []")
  show ?thesis
  proof (cases out)
    case (Returned bufs)
    obtain a st2 where s: "send st1 ''IO.close'' (handle_param h) = (a, st2)"
      by (cases "send st1 ''IO.close'' (handle_param h)")
    then have c: "calls st2 = calls st1 @ [Send ''IO.close'' (handle_param h)]"
      using send_calls [of st1 "''IO.close''" "handle_param h"] by simp
    show ?thesis
      using rl Returned s c
      by (auto simp: readStream_def Let_def split: option.splits sum.splits dest: write_file_frame)
  next
    case (Raised e)
    then show ?thesis using rl by (simp add: readStream_def)
  next
    case Suspended
    then show ?thesis using rl by (simp add: readStream_def)
  qed
qed

lemma readStream_first_read:
  "\<exists>cs. calls (snd (readStream st h p)) = calls st @ Send ''IO.read'' (handle_param h) # cs"
proof -
  from read_loop_first_read [of st h "[]"] obtain cs where
    "calls (snd (read_loop st h False [])) = calls st @ Send ''IO.read'' (handle_param h) # cs"
    by blast
  moreover from readStream_after_loop [of st h p] obtain cs' where
    "calls (snd (readStream st h p)) = calls (snd (read_loop st h False [])) @ cs'"
    by blast
  ultimately have "calls (snd (readStream st h p)) =
      calls st @ Send ''IO.read'' (handle_param h) # (cs @ cs')"
    by simp
  then show ?thesis by blast
qed

subsection \<open>The four ways through \<open>stop\<close>\<close>

lemma stop_unanswered:
  "replies st = [] \<Longrightarrow>
   stop st = (Suspended,
     st\<lparr>calls := calls st @ [Once ''Tracing.tracingComplete'', Send ''Tracing.end'' []]\<rparr>)"
  by (simp add: stop_def once_def send_def)

lemma stop_end_raises:
  "replies st = Inl e # rs \<Longrightarrow>
   stop st = (Raised e,
     st\<lparr>calls := calls st @ [Once ''Tracing.tracingComplete'', Send ''Tracing.end'' []],
        replies := rs\<rparr>)"
  by (simp add: stop_def once_def send_def)

lemma stop_no_signal:
  "replies st = Inr r # rs \<Longrightarrow> signals st = [] \<Longrightarrow>
   stop st = (Suspended,
     st\<lparr>calls := calls st @ [Once ''Tracing.tracingComplete'', Send ''Tracing.end'' []],
        replies := rs, recording := False\<rparr>)"
  by (simp add: stop_def once_def send_def)

lemma stop_signal:
  "replies st = Inr r # rs \<Longrightarrow> signals st = ev # evs \<Longrightarrow>
   stop st =
     (case readStream
             (st\<lparr>calls := calls st @ [Once ''Tracing.tracingComplete'', Send ''Tracing.end'' []],
                 replies := rs, recording := False, signals := evs\<rparr>)
             (stream ev) (path st) of
        (Returned v, st4) \<Rightarrow> (Returned v, st4)
      | (Raised e, st4) \<Rightarrow> (Suspended, st4)
      | (Suspended, st4) \<Rightarrow> (Suspended, st4))"
  by (simp add: stop_def once_def send_def)

lemma snd_case_outcome:
  "snd (case x of (Returned v, s) \<Rightarrow> (Returned v, s) | (Raised e, s) \<Rightarrow> (Suspended, s)
               | (Suspended, s) \<Rightarrow> (Suspended, s)) = snd x"
  by (simp split: prod.splits outcome.splits)

lemma fst_case_outcome_not_raised:
  "fst (case x of (Returned v, s) \<Rightarrow> (Returned v, s) | (Raised e, s) \<Rightarrow> (Suspended, s)
               | (Suspended, s) \<Rightarrow> (Suspended, s)) \<noteq> Raised err"
  by (simp split: prod.splits outcome.splits)

text \<open>What \<open>stop\<close> issues to the session: the registration, the end command, and then
  only reads and closes of the handle the signal names.\<close>

lemma stop_calls:
  "\<exists>rest. calls (snd (stop st)) =
      calls st @ Once ''Tracing.tracingComplete'' # Send ''Tracing.end'' [] # rest \<and>
      set rest \<subseteq> {Send ''IO.read'' (handle_param (stream (hd (signals st)))),
                  Send ''IO.close'' (handle_param (stream (hd (signals st))))}"
proof (cases "replies st")
  case Nil
  show ?thesis
    by (rule exI [of _ "[]"]) (simp add: stop_unanswered [OF Nil])
next
  case (Cons a rs)
  show ?thesis
  proof (cases a)
    case (Inl e)
    with Cons have r: "replies st = Inl e # rs" by simp
    show ?thesis
      by (rule exI [of _ "[]"]) (simp add: stop_end_raises [OF r])
  next
    case (Inr r)
    with Cons have r: "replies st = Inr r # rs" by simp
    show ?thesis
    proof (cases "signals st")
      case Nil
      show ?thesis
        by (rule exI [of _ "[]"]) (simp add: stop_no_signal [OF r Nil])
    next
      case (Cons ev evs)
      let ?st3 = "st\<lparr>calls := calls st @ [Once ''Tracing.tracingComplete'', Send ''Tracing.end'' []],
                 replies := rs, recording := False, signals := evs\<rparr>"
      let ?cl = "case fst (read_loop ?st3 (stream ev) False []) of
               Returned bufs \<Rightarrow> [Send ''IO.close'' (handle_param (stream ev))]
             | Raised e \<Rightarrow> []
             | Suspended \<Rightarrow> []"
      from readStream_calls [of ?st3 "stream ev" "path st"] obtain k where
        k: "calls (snd (readStream ?st3 (stream ev) (path st))) =
            calls ?st3 @ replicate k (Send ''IO.read'' (handle_param (stream ev))) @ ?cl"
        by blast
      have c: "calls (snd (stop st)) =
          calls st @ Once ''Tracing.tracingComplete'' # Send ''Tracing.end'' [] #
            (replicate k (Send ''IO.read'' (handle_param (stream ev))) @ ?cl)"
        by (simp add: stop_signal [OF r Cons] snd_case_outcome k)
      have "set (replicate k (Send ''IO.read'' (handle_param (stream ev))) @ ?cl) \<subseteq>
            {Send ''IO.read'' (handle_param (stream ev)),
             Send ''IO.close'' (handle_param (stream ev))}"
        by (auto split: outcome.splits)
      with c Cons show ?thesis by auto
    qed
  qed
qed

lemma stop_recording:
  "recording (snd (stop st)) = (case replies st of Inr r # rs \<Rightarrow> False | _ \<Rightarrow> recording st)"
proof (cases "replies st")
  case Nil
  then show ?thesis by (simp add: stop_unanswered)
next
  case (Cons a rs)
  show ?thesis
  proof (cases a)
    case (Inl e)
    with Cons show ?thesis by (simp add: stop_end_raises [of st e rs])
  next
    case (Inr r)
    with Cons have r: "replies st = Inr r # rs" by simp
    show ?thesis
    proof (cases "signals st")
      case Nil
      with r show ?thesis by (simp add: stop_no_signal [OF r Nil])
    next
      case (Cons ev evs)
      with r show ?thesis
        by (simp add: stop_signal [OF r Cons] snd_case_outcome readStream_recording)
    qed
  qed
qed

text \<open>\<open>stop\<close> raises exactly when its own send of \<open>Tracing.end\<close> raises.\<close>

lemma stop_raised:
  "(fst (stop st) = Raised e) = (\<exists>rs. replies st = Inl e # rs)"
proof (cases "replies st")
  case Nil
  then show ?thesis by (simp add: stop_unanswered)
next
  case (Cons a rs)
  show ?thesis
  proof (cases a)
    case (Inl e')
    with Cons show ?thesis by (auto simp: stop_end_raises [of st e' rs])
  next
    case (Inr r)
    with Cons have r: "replies st = Inr r # rs" by simp
    show ?thesis
    proof (cases "signals st")
      case Nil
      with r show ?thesis by (simp add: stop_no_signal [OF r Nil])
    next
      case (Cons ev evs)
      with r show ?thesis
        by (simp add: stop_signal [OF r Cons] fst_case_outcome_not_raised)
    qed
  qed
qed

section \<open>The claims about \<open>_readStream\<close> and \<open>stop\<close>\<close>

text \<open>
  C1. In every execution of \<open>stop\<close>, whatever the session answers, the first operation
  issued is the registration of the listener for \<open>Tracing.tracingComplete\<close> and the
  second is the command \<open>Tracing.end\<close>; neither is issued again afterwards. So the
  listener is armed before the command is sent.
\<close>

theorem stop_arms_listener_before_end:
  "\<exists>rest. issued st (snd (stop st)) =
            Once ''Tracing.tracingComplete'' # Send ''Tracing.end'' [] # rest \<and>
          Once ''Tracing.tracingComplete'' \<notin> set rest \<and>
          Send ''Tracing.end'' [] \<notin> set rest"
proof -
  from stop_calls [of st] obtain rest where
    c: "calls (snd (stop st)) =
      calls st @ (Once ''Tracing.tracingComplete'' # Send ''Tracing.end'' [] # rest)"
    and r: "set rest \<subseteq> {Send ''IO.read'' (handle_param (stream (hd (signals st)))),
                  Send ''IO.close'' (handle_param (stream (hd (signals st))))}"
    by auto
  have i: "issued st (snd (stop st)) =
      Once ''Tracing.tracingComplete'' # Send ''Tracing.end'' [] # rest"
    using issued_append [OF c] .
  have "Once ''Tracing.tracingComplete'' \<notin> set rest" and "Send ''Tracing.end'' [] \<notin> set rest"
    using r by auto
  with i show ?thesis by blast
qed



text \<open>
  C3, as the code has it. There is no \<open>try\<close>/\<open>finally\<close> around the loop: \<open>IO.close\<close> for
  the handle is issued exactly once when the loop has ended on \<open>eof\<close>, and not at all
  when a read has raised or was never answered.
\<close>

theorem readStream_close_count:
  "count_list (issued st (snd (readStream st h p))) (Send ''IO.close'' (handle_param h)) =
     (case fst (read_loop st h False []) of
        Returned bufs \<Rightarrow> 1
      | Raised e \<Rightarrow> 0
      | Suspended \<Rightarrow> 0)"
proof -
  from readStream_calls [of st h p] obtain k where
    "calls (snd (readStream st h p)) =
        calls st @ (replicate k (Send ''IO.read'' (handle_param h)) @
        (case fst (read_loop st h False []) of
           Returned bufs \<Rightarrow> [Send ''IO.close'' (handle_param h)]
         | Raised e \<Rightarrow> []
         | Suspended \<Rightarrow> []))"
    by auto
  from issued_append [OF this] show ?thesis
    by (simp add: count_list_replicate_other split: outcome.splits)
qed

text \<open>C3 as stated fails: when the second read raises, \<open>_readStream\<close> raises that error
  and the two reads are all it has issued; there is no close.\<close>

theorem readStream_read_error_skips_close:
  "fst (readStream
         (init [Inr \<lparr>data = Some ''ab'', eof = Some False\<rparr>,
                Inl (TransportError ''lost'')] [])
         (Some ''h1'') []) = Raised (TransportError ''lost'') \<and>
   calls (snd (readStream
         (init [Inr \<lparr>data = Some ''ab'', eof = Some False\<rparr>,
                Inl (TransportError ''lost'')] [])
         (Some ''h1'') [])) =
     [Send ''IO.read'' [(''handle'', PStr ''h1'')],
      Send ''IO.read'' [(''handle'', PStr ''h1'')]]"
  by code_simp

text \<open>
  C6, as the code has it. When the signal has no \<open>stream\<close> field, \<open>event.get('stream')\<close>
  is \<open>None\<close> and that is the handle: after the registration and \<open>Tracing.end\<close>, \<open>stop\<close>
  sends \<open>IO.read\<close> with \<open>handle = None\<close>, and it raises no error, whatever the session
  answers.
\<close>

theorem stop_missing_stream_defaulted:
  assumes "replies st = Inr r # rs" and "signals st = ev # evs" and "stream ev = None"
  shows "(\<forall>e. fst (stop st) \<noteq> Raised e) \<and>
         (\<exists>rest. issued st (snd (stop st)) =
            Once ''Tracing.tracingComplete'' # Send ''Tracing.end'' [] #
            Send ''IO.read'' [(''handle'', PNone)] # rest)"
proof -
  let ?st3 = "st\<lparr>calls := calls st @ [Once ''Tracing.tracingComplete'', Send ''Tracing.end'' []],
                 replies := rs, recording := False, signals := evs\<rparr>"
  from readStream_first_read [of ?st3 None "path st"] obtain cs where
    "calls (snd (readStream ?st3 None (path st))) =
       calls ?st3 @ Send ''IO.read'' (handle_param None) # cs"
    by blast
  then have "calls (snd (stop st)) =
       calls st @ (Once ''Tracing.tracingComplete'' # Send ''Tracing.end'' [] #
            Send ''IO.read'' [(''handle'', PNone)] # cs)"
    using assms(3) by (simp add: stop_signal [OF assms(1) assms(2)] snd_case_outcome)
  from issued_append [OF this] have "\<exists>rest. issued st (snd (stop st)) =
            Once ''Tracing.tracingComplete'' # Send ''Tracing.end'' [] #
            Send ''IO.read'' [(''handle'', PNone)] # rest"
    by blast
  moreover have "\<forall>e. fst (stop st) \<noteq> Raised e"
    using assms(1) by (simp add: stop_raised)
  ultimately show ?thesis by blast
qed

text \<open>The theorem where the session rejects the read of the handle \<open>None\<close>.\<close>

theorem stop_missing_stream_defaulted_witness:
  "(\<forall>e. fst (stop (init [Inr \<lparr>data = None, eof = None\<rparr>,
                          Inl (TransportError ''no such handle'')]
                         [\<lparr>stream = None\<rparr>])) \<noteq> Raised e) \<and>
   (\<exists>rest. issued
       (init [Inr \<lparr>data = None, eof = None\<rparr>, Inl (TransportError ''no such handle'')]
             [\<lparr>stream = None\<rparr>])
       (snd (stop (init [Inr \<lparr>data = None, eof = None\<rparr>,
                         Inl (TransportError ''no such handle'')]
                        [\<lparr>stream = None\<rparr>]))) =
       Once ''Tracing.tracingComplete'' # Send ''Tracing.end'' [] #
       Send ''IO.read'' [(''handle'', PNone)] # rest)"
proof -
  let ?st = "init [Inr \<lparr>data = None, eof = None\<rparr>, Inl (TransportError ''no such handle'')]
                  [\<lparr>stream = None\<rparr>]"
  have h1: "replies ?st = Inr \<lparr>data = None, eof = None\<rparr> # [Inl (TransportError ''no such handle'')]"
    by (simp add: init_def)
  have h2: "signals ?st = \<lparr>stream = None\<rparr> # []" by (simp add: init_def)
  have h3: "stream \<lparr>stream = None\<rparr> = None" by simp
  from stop_missing_stream_defaulted [OF h1 h2 h3] show ?thesis .
qed

text \<open>C6 as stated fails: without a \<open>stream\<close> field, and a session that answers the
  reads, \<open>stop\<close> returns the data, having read and closed the handle \<open>None\<close>.\<close>

theorem stop_missing_stream_returns:
  "fst (stop (init [Inr \<lparr>data = None, eof = None\<rparr>,
                    Inr \<lparr>data = Some ''X'', eof = Some True\<rparr>,
                    Inr \<lparr>data = None, eof = None\<rparr>]
                   [\<lparr>stream = None\<rparr>])) = Returned ''X'' \<and>
   calls (snd (stop (init [Inr \<lparr>data = None, eof = None\<rparr>,
                    Inr \<lparr>data = Some ''X'', eof = Some True\<rparr>,
                    Inr \<lparr>data = None, eof = None\<rparr>]
                   [\<lparr>stream = None\<rparr>]))) =
     [Once ''Tracing.tracingComplete'', Send ''Tracing.end'' [],
      Send ''IO.read'' [(''handle'', PNone)], Send ''IO.close'' [(''handle'', PNone)]]"
  by code_simp

text \<open>
  C7, as the code has it. \<open>start\<close> always leaves \<open>_recording\<close> true, since it sets it
  before the send. \<open>stop\<close> leaves it false exactly when its send of \<open>Tracing.end\<close> was
  answered without an error, whatever happens to the drain after that, and leaves it as
  it was when that send raised or was never answered. \<open>_readStream\<close> does not change it.
\<close>

theorem recording_transitions:
  "recording (snd (start st p sc c)) = True \<and>
   recording (snd (stop st)) = (case replies st of Inr r # rs \<Rightarrow> False | _ \<Rightarrow> recording st) \<and>
   recording (snd (readStream st h p)) = recording st"
  by (simp only: start_recording stop_recording readStream_recording simp_thms)

text \<open>C7 as stated fails: after a \<open>start\<close>, a \<open>stop\<close> whose \<open>Tracing.end\<close> raises fails and
  \<open>_recording\<close> is still true; and a \<open>start\<close> whose send raises has set it.\<close>

theorem stop_failed_end_keeps_recording:
  "fst (stop (snd (start (init [Inr \<lparr>data = None, eof = None\<rparr>,
                                Inl (TransportError ''closed'')] [])
                         [] False CNone))) = Raised (TransportError ''closed'') \<and>
   recording (snd (stop (snd (start (init [Inr \<lparr>data = None, eof = None\<rparr>,
                                Inl (TransportError ''closed'')] [])
                         [] False CNone)))) = True \<and>
   fst (start (init [Inl (TransportError ''closed'')] []) [] False CNone) =
     Raised (TransportError ''closed'') \<and>
   recording (snd (start (init [Inl (TransportError ''closed'')] []) [] False CNone)) = True"
  by code_simp

text \<open>
  C8, as the code has it. \<open>stop\<close> does not look at \<open>_recording\<close>: from two states that
  differ in it only, it gives the same outcome and the same operations on the session,
  which begin with the registration of a listener and \<open>Tracing.end\<close>; and the only error
  it raises is the one its send of \<open>Tracing.end\<close> raised.
\<close>

theorem stop_not_guarded:
  "fst (stop (st\<lparr>recording := b\<rparr>)) = fst (stop st) \<and>
   calls (snd (stop (st\<lparr>recording := b\<rparr>))) = calls (snd (stop st)) \<and>
   take 2 (issued st (snd (stop st))) =
     [Once ''Tracing.tracingComplete'', Send ''Tracing.end'' []] \<and>
   (fst (stop st) = Raised e) = (\<exists>rs. replies st = Inl e # rs)"
proof -
  have same: "fst (stop (st\<lparr>recording := b\<rparr>)) = fst (stop st) \<and>
     calls (snd (stop (st\<lparr>recording := b\<rparr>))) = calls (snd (stop st))"
  proof (cases "replies st")
    case Nil
    then show ?thesis by (simp add: stop_unanswered)
  next
    case (Cons a rs)
    show ?thesis
    proof (cases a)
      case (Inl e')
      with Cons show ?thesis
        by (simp add: stop_end_raises [of st e' rs] stop_end_raises [of "st\<lparr>recording := b\<rparr>" e' rs])
    next
      case (Inr r)
      with Cons have r: "replies st = Inr r # rs" by simp
      then have r': "replies (st\<lparr>recording := b\<rparr>) = Inr r # rs" by simp
      show ?thesis
      proof (cases "signals st")
        case Nil
        then have n': "signals (st\<lparr>recording := b\<rparr>) = []" by simp
        show ?thesis by (simp add: stop_no_signal [OF r Nil] stop_no_signal [OF r' n'])
      next
        case (Cons ev evs)
        then have c': "signals (st\<lparr>recording := b\<rparr>) = ev # evs" by simp
        show ?thesis by (simp add: stop_signal [OF r Cons] stop_signal [OF r' c'])
      qed
    qed
  qed
  from stop_calls [of st] obtain rest where
    "calls (snd (stop st)) =
      calls st @ (Once ''Tracing.tracingComplete'' # Send ''Tracing.end'' [] # rest)"
    by auto
  from issued_append [OF this] have "take 2 (issued st (snd (stop st))) =
     [Once ''Tracing.tracingComplete'', Send ''Tracing.end'' []]"
    by simp
  with same stop_raised [of st e] show ?thesis by simp
qed

text \<open>C8 as stated fails: after \<open>start\<close> and a \<open>stop\<close> that returned, \<open>_recording\<close> is
  false, and a second \<open>stop\<close> registers a listener, sends \<open>Tracing.end\<close>, drains the
  stream of the next signal and returns its data. The first five operations in the log
  are those of \<open>start\<close> and of the first \<open>stop\<close>.\<close>

theorem second_stop_retriggers:
  "recording (snd (stop (snd (start
      (init [Inr \<lparr>data = None, eof = None\<rparr>,
             Inr \<lparr>data = None, eof = None\<rparr>,
             Inr \<lparr>data = Some ''X'', eof = Some True\<rparr>,
             Inr \<lparr>data = None, eof = None\<rparr>,
             Inr \<lparr>data = None, eof = None\<rparr>,
             Inr \<lparr>data = Some ''Y'', eof = Some True\<rparr>,
             Inr \<lparr>data = None, eof = None\<rparr>]
            [\<lparr>stream = Some ''h1''\<rparr>, \<lparr>stream = Some ''h2''\<rparr>])
      [] False CNone)))) = False \<and>
   fst (stop (snd (stop (snd (start
      (init [Inr \<lparr>data = None, eof = None\<rparr>,
             Inr \<lparr>data = None, eof = None\<rparr>,
             Inr \<lparr>data = Some ''X'', eof = Some True\<rparr>,
             Inr \<lparr>data = None, eof = None\<rparr>,
             Inr \<lparr>data = None, eof = None\<rparr>,
             Inr \<lparr>data = Some ''Y'', eof = Some True\<rparr>,
             Inr \<lparr>data = None, eof = None\<rparr>]
            [\<lparr>stream = Some ''h1''\<rparr>, \<lparr>stream = Some ''h2''\<rparr>])
      [] False CNone))))) = Returned ''Y'' \<and>
   drop 5 (calls (snd (stop (snd (stop (snd (start
      (init [Inr \<lparr>data = None, eof = None\<rparr>,
             Inr \<lparr>data = None, eof = None\<rparr>,
             Inr \<lparr>data = Some ''X'', eof = Some True\<rparr>,
             Inr \<lparr>data = None, eof = None\<rparr>,
             Inr \<lparr>data = None, eof = None\<rparr>,
             Inr \<lparr>data = Some ''Y'', eof = Some True\<rparr>,
             Inr \<lparr>data = None, eof = None\<rparr>]
            [\<lparr>stream = Some ''h1''\<rparr>, \<lparr>stream = Some ''h2''\<rparr>])
      [] False CNone))))))) =
     [Once ''Tracing.tracingComplete'', Send ''Tracing.end'' [],
      Send ''IO.read'' [(''handle'', PStr ''h2'')],
      Send ''IO.close'' [(''handle'', PStr ''h2'')]]"
  by code_simp

end
